theory Spec2Isabelle
  imports Main "HOL-Library.Word" "HOL-Library.Signed_Division"
begin

section \<open>Data model of \<^verbatim>\<open>src/main.c\<close>\<close>

text \<open>
  The program is a single C file: an SDL2 front end around a cellular automaton on a
  fixed \<^verbatim>\<open>BOARD_SIDE\<close> x \<^verbatim>\<open>BOARD_SIDE\<close> byte grid. The embedding keeps the program
  state (the \<^verbatim>\<open>gameOfLife_t\<close> struct of \<^verbatim>\<open>main\<close>, the two global colours, the
  fullscreen flag) and the hidden state of libc's \<^verbatim>\<open>random()\<close>. The SDL drawing calls
  write to the renderer only and never to the program state, so they are left out.
\<close>

type_synonym uint8_t = "8 word"

text \<open>\<^verbatim>\<open>struct SDL_Color { Uint8 r, g, b, a; }\<close>; the fields carry a prefix, since
  one-letter record fields would capture the variables of every later statement.\<close>

record SDL_Color =
  col_r :: uint8_t
  col_g :: uint8_t
  col_b :: uint8_t
  col_a :: uint8_t

definition DEFAULT_DELTA_TIME :: uint8_t where
  "DEFAULT_DELTA_TIME = 60"

definition BOARD_SIDE :: nat where
  "BOARD_SIDE = 200"

text \<open>A \<^verbatim>\<open>uint8_t [BOARD_SIDE][BOARD_SIDE]\<close> array is a list of rows.\<close>

type_synonym grid = "uint8_t list list"

record gameOfLife_t =
  deltaTime :: uint8_t
  simulationPaused :: bool
  board :: grid
  workBoard :: grid

text \<open>
  The whole program state. \<open>randomCalls\<close> counts the calls of \<^verbatim>\<open>random()\<close> made so
  far: the generator is a parameter \<open>rnd\<close> of the model, and the \<open>k\<close>-th call (from 0)
  returns \<open>rnd k\<close>, a non-negative \<^verbatim>\<open>long\<close>.
\<close>

record world =
  gameColors :: SDL_Color
  backgroundColor :: SDL_Color
  gFullscreen :: uint8_t
  gameOfLife :: gameOfLife_t
  randomCalls :: nat

type_synonym random_t = "nat \<Rightarrow> nat"

text \<open>How a run ends: \<^verbatim>\<open>exit(code)\<close>, the trap of an integer division by zero, or
  behaviour the C standard leaves undefined.\<close>

datatype halt = Exit nat | DivisionByZero | UndefinedBehaviour

datatype SDL_Keycode =
  SDLK_ESCAPE | SDLK_q | SDLK_p | SDLK_MINUS | SDLK_PLUS | SDLK_F11 | SDLK_other

datatype mouse_button =
  SDL_BUTTON_LEFT | SDL_BUTTON_MIDDLE | SDL_BUTTON_RIGHT | SDL_BUTTON_X1 | SDL_BUTTON_X2

datatype SDL_Event =
  SDL_QUIT | SDL_KEYDOWN SDL_Keycode | SDL_MOUSEBUTTONDOWN mouse_button | SDL_other_event

section \<open>The operations\<close>

text \<open>C's \<^verbatim>\<open>/\<close> and \<^verbatim>\<open>%\<close> on \<^verbatim>\<open>int\<close> truncate towards zero: \<open>sdiv\<close> and \<open>smod\<close>.\<close>

definition GetRowByIndex :: "int \<Rightarrow> int" where
  "GetRowByIndex index = index sdiv int BOARD_SIDE"

definition GetColumnByIndex :: "int \<Rightarrow> int" where
  "GetColumnByIndex index = index smod int BOARD_SIDE"

text \<open>Reading and writing \<^verbatim>\<open>m[i][j]\<close>. Every call below is guarded by the
  source's own range checks; \<open>in_range\<close> states what they have to give.\<close>

definition cell :: "grid \<Rightarrow> int \<Rightarrow> int \<Rightarrow> uint8_t" where
  "cell m i j = m ! nat i ! nat j"

definition set_cell :: "grid \<Rightarrow> int \<Rightarrow> int \<Rightarrow> uint8_t \<Rightarrow> grid" where
  "set_cell m i j v = m[nat i := (m ! nat i)[nat j := v]]"

definition in_range :: "int \<Rightarrow> bool" where
  "in_range i = (0 \<le> i \<and> i < int BOARD_SIDE)"

text \<open>The two nested \<^verbatim>\<open>for\<close> loops of \<^verbatim>\<open>ApplyLifeRule\<close> (lines 286-292): they
  visit the 3 x 3 block around \<open>(row, col)\<close>, the cell itself included, and count the
  non-zero entries of the displayed board.\<close>

definition countLifeForms :: "grid \<Rightarrow> int \<Rightarrow> int \<Rightarrow> int" where
  "countLifeForms bd row col =
     fold (\<lambda>neighbourRow lifeForms.
            fold (\<lambda>neighbourCol lifeForms.
                   if cell bd neighbourRow neighbourCol \<noteq> 0 then lifeForms + 1
                   else lifeForms)
                 [col - 1..col + 1] lifeForms)
          [row - 1..row + 1] 0"

text \<open>\<^verbatim>\<open>ApplyLifeRule\<close> (lines 279-310). The count is decremented once, whatever
  the cell itself holds (line 293); the two outer \<^verbatim>\<open>else\<close> branches are empty.\<close>

definition ApplyLifeRule :: "gameOfLife_t \<Rightarrow> int \<Rightarrow> int \<Rightarrow> gameOfLife_t" where
  "ApplyLifeRule gol row col =
     (if row > 0 \<and> row < int BOARD_SIDE - 1 then
        if col > 0 \<and> col < int BOARD_SIDE - 1 then
          let lifeForms = countLifeForms (board gol) row col - 1 in
          if lifeForms < 2 \<or> lifeForms > 3
          then gol\<lparr>workBoard := set_cell (workBoard gol) row col 0\<rparr>
          else gol\<lparr>workBoard := set_cell (workBoard gol) row col 1\<rparr>
        else gol
      else gol)"

text \<open>\<^verbatim>\<open>UpdateBoard\<close> (lines 204-246) without its drawing calls: the rule loop over
  \<open>i = BOARD_SIDE, ..., BOARD_SIDE * BOARD_SIDE - 1\<close>, then the \<^verbatim>\<open>memcpy\<close> of the work
  board onto the displayed one.\<close>

definition applyRules :: "gameOfLife_t \<Rightarrow> nat \<Rightarrow> gameOfLife_t" where
  "applyRules gol n =
     fold (\<lambda>i g. ApplyLifeRule g (GetRowByIndex (int i)) (GetColumnByIndex (int i)))
          [BOARD_SIDE..<n] gol"

definition UpdateBoard :: "gameOfLife_t \<Rightarrow> gameOfLife_t" where
  "UpdateBoard gol =
     (let gol' = applyRules gol (BOARD_SIDE * BOARD_SIDE)
      in gol'\<lparr>board := workBoard gol'\<rparr>)"

text \<open>\<^verbatim>\<open>InitializeSimulation\<close> (lines 132-148): one \<^verbatim>\<open>random() % 10\<close> per index
  \<open>i\<close>, stored in a \<^verbatim>\<open>uint8_t\<close>, decides the cell \<^verbatim>\<open>board[i % BOARD_SIDE][i / BOARD_SIDE]\<close>.
  The counter \<open>i\<close> is a \<^verbatim>\<open>uint16_t\<close>; the bound 40000 is below \<open>2 ^ 16\<close>, so it never
  wraps. (\<^verbatim>\<open>srand\<close> seeds \<^verbatim>\<open>rand\<close>, not \<^verbatim>\<open>random\<close>, and has no effect here.)\<close>

definition initCell :: "random_t \<Rightarrow> nat \<Rightarrow> world \<Rightarrow> world" where
  "initCell rnd i w =
     (let randomNumber = (of_nat (rnd (randomCalls w) mod 10) :: uint8_t);
          gol = gameOfLife w;
          x = GetColumnByIndex (int i);
          y = GetRowByIndex (int i)
      in w\<lparr>gameOfLife :=
              (if randomNumber = 0 then gol\<lparr>board := set_cell (board gol) x y 1\<rparr>
               else gol\<lparr>board := set_cell (board gol) x y 0\<rparr>),
            randomCalls := randomCalls w + 1\<rparr>)"

definition InitializeSimulation :: "random_t \<Rightarrow> world \<Rightarrow> world" where
  "InitializeSimulation rnd w = fold (initCell rnd) [0..<BOARD_SIDE * BOARD_SIDE] w"

text \<open>\<^verbatim>\<open>EvaluateKey\<close> (lines 248-277). \<^verbatim>\<open>deltaTime\<close> is a \<^verbatim>\<open>uint8_t\<close>: \<^verbatim>\<open>--\<close> and
  \<^verbatim>\<open>++\<close> wrap.\<close>

fun EvaluateKey :: "SDL_Keycode \<Rightarrow> world \<Rightarrow> halt + world" where
  "EvaluateKey SDLK_ESCAPE w = Inl (Exit 0)"
| "EvaluateKey SDLK_q w = Inl (Exit 0)"
| "EvaluateKey SDLK_p w =
     Inr (w\<lparr>gameOfLife := (gameOfLife w)
               \<lparr>simulationPaused := (if simulationPaused (gameOfLife w) then False else True)\<rparr>\<rparr>)"
| "EvaluateKey SDLK_MINUS w =
     Inr (w\<lparr>gameOfLife := (gameOfLife w)\<lparr>deltaTime := deltaTime (gameOfLife w) - 1\<rparr>\<rparr>)"
| "EvaluateKey SDLK_PLUS w =
     Inr (w\<lparr>gameOfLife := (gameOfLife w)\<lparr>deltaTime := deltaTime (gameOfLife w) + 1\<rparr>\<rparr>)"
| "EvaluateKey SDLK_F11 w =
     Inr (if gFullscreen w \<noteq> 0 then w\<lparr>gFullscreen := 0\<rparr> else w\<lparr>gFullscreen := 1\<rparr>)"
| "EvaluateKey SDLK_other w = Inr w"

text \<open>The body of the event \<^verbatim>\<open>switch\<close> in \<^verbatim>\<open>SimulationLoop\<close> (lines 160-181).\<close>

definition randomizeColor :: "random_t \<Rightarrow> nat \<Rightarrow> SDL_Color \<Rightarrow> SDL_Color" where
  "randomizeColor rnd k c =
     c\<lparr>col_r := of_nat (rnd k mod 256),
       col_g := of_nat (rnd (k + 1) mod 256),
       col_b := of_nat (rnd (k + 2) mod 256)\<rparr>"

fun handleEvent :: "random_t \<Rightarrow> SDL_Event \<Rightarrow> world \<Rightarrow> halt + world" where
  "handleEvent rnd SDL_QUIT w = Inl (Exit 0)"
| "handleEvent rnd (SDL_KEYDOWN key) w = EvaluateKey key w"
| "handleEvent rnd (SDL_MOUSEBUTTONDOWN button) w =
     (let k = randomCalls w;
          w1 = (if button = SDL_BUTTON_LEFT
                then w\<lparr>gameColors := randomizeColor rnd k (gameColors w)\<rparr>
                else w\<lparr>backgroundColor := randomizeColor rnd k (backgroundColor w)\<rparr>)
      in Inr (w1\<lparr>gameOfLife := UpdateBoard (gameOfLife w1), randomCalls := k + 3\<rparr>))"
| "handleEvent rnd SDL_other_event w = Inr w"

text \<open>The \<^verbatim>\<open>while (SDL_PollEvent(&event))\<close> loop over the pending events.\<close>

fun pollEvents :: "random_t \<Rightarrow> SDL_Event list \<Rightarrow> world \<Rightarrow> halt + world" where
  "pollEvents rnd [] w = Inr w"
| "pollEvents rnd (event # pending) w =
     (case handleEvent rnd event w of
        Inl h \<Rightarrow> Inl h
      | Inr w' \<Rightarrow> pollEvents rnd pending w')"

text \<open>Lines 155-157, the step the specification calls \<open>tick()\<close>.\<close>

definition tick :: "world \<Rightarrow> world" where
  "tick w =
     (if \<not> simulationPaused (gameOfLife w) then w\<lparr>gameOfLife := UpdateBoard (gameOfLife w)\<rparr>
      else w)"

text \<open>Line 184: \<^verbatim>\<open>SDL_Delay(1000 / gameOfLife->deltaTime)\<close>, an \<^verbatim>\<open>int\<close> division
  with nothing in front of it; the result is the number of milliseconds requested.\<close>

definition frameDelay :: "world \<Rightarrow> halt + nat" where
  "frameDelay w =
     (if deltaTime (gameOfLife w) = 0 then Inl DivisionByZero
      else Inr (1000 div unat (deltaTime (gameOfLife w))))"

text \<open>One pass through the body of \<^verbatim>\<open>for ( ;; )\<close>, given the events pending there:
  it halts, or gives the delay requested and the state for the next pass.\<close>

definition loopBody :: "random_t \<Rightarrow> SDL_Event list \<Rightarrow> world \<Rightarrow> halt + (nat \<times> world)" where
  "loopBody rnd pending w =
     (case pollEvents rnd pending (tick w) of
        Inl h \<Rightarrow> Inl h
      | Inr w' \<Rightarrow>
          (case frameDelay w' of
             Inl h \<Rightarrow> Inl h
           | Inr ms \<Rightarrow> Inr (ms, w')))"

text \<open>\<^verbatim>\<open>SimulationLoop\<close> never returns. The model runs it on a finite prefix of the
  input, one list of pending events per pass, and gives the state after the last pass
  with the delays requested so far.\<close>

fun SimulationLoop :: "random_t \<Rightarrow> SDL_Event list list \<Rightarrow> world \<Rightarrow> halt + (nat list \<times> world)" where
  "SimulationLoop rnd [] w = Inr ([], w)"
| "SimulationLoop rnd (pending # rest) w =
     (case loopBody rnd pending w of
        Inl h \<Rightarrow> Inl h
      | Inr (ms, w') \<Rightarrow>
          (case SimulationLoop rnd rest w' of
             Inl h \<Rightarrow> Inl h
           | Inr (delays, w'') \<Rightarrow> Inr (ms # delays, w'')))"

text \<open>The state \<^verbatim>\<open>main\<close> starts from: the initialisers of the globals (lines 38-55)
  and of the local struct (lines 81-84), whose unnamed members are zeroed.\<close>

definition zeroGrid :: grid where
  "zeroGrid = replicate BOARD_SIDE (replicate BOARD_SIDE 0)"

definition initialWorld :: world where
  "initialWorld =
     \<lparr>gameColors = \<lparr>col_r = 255, col_g = 127, col_b = 0, col_a = 255\<rparr>,
      backgroundColor = \<lparr>col_r = 0, col_g = 0, col_b = 0, col_a = 255\<rparr>,
      gFullscreen = 0,
      gameOfLife = \<lparr>deltaTime = DEFAULT_DELTA_TIME, simulationPaused = False,
                    board = zeroGrid, workBoard = zeroGrid\<rparr>,
      randomCalls = 0\<rparr>"

text \<open>\<^verbatim>\<open>Abort\<close> (lines 92-106) walks through its message. At a placeholder \<^verbatim>\<open>{}\<close> it
  calls \<^verbatim>\<open>va_arg\<close> on a \<^verbatim>\<open>va_list\<close> that no \<^verbatim>\<open>va_start\<close> has set up, which is undefined;
  a message without placeholder is printed and the program exits with code 1.\<close>

fun Abort :: "string \<Rightarrow> halt" where
  "Abort (c # d # errorMessage) =
     (if c = CHR ''{'' \<and> d = CHR ''}'' then UndefinedBehaviour else Abort (d # errorMessage))"
| "Abort errorMessage = Exit 1"

text \<open>\<^verbatim>\<open>main\<close> (lines 80-90). \<open>graphicsOk\<close> says whether \<^verbatim>\<open>InitializeGraphics\<close> could set
  SDL up. Where it could not, it calls \<^verbatim>\<open>Abort\<close>; the message is that of the first of its
  three calls (line 110), and the other two (lines 119 and 125) hold a placeholder as well.\<close>

definition startWorld :: "random_t \<Rightarrow> world" where
  "startWorld rnd = InitializeSimulation rnd initialWorld"

definition main :: "bool \<Rightarrow> random_t \<Rightarrow> SDL_Event list list \<Rightarrow> halt + (nat list \<times> world)" where
  "main graphicsOk rnd input =
     (if \<not> graphicsOk then Inl (Abort ''Cannot initialize SDL2: {}'')
      else SimulationLoop rnd input (startWorld rnd))"

section \<open>Predicates of the verification\<close>

text \<open>The dimensions of a \<^verbatim>\<open>[BOARD_SIDE][BOARD_SIDE]\<close> array.\<close>

definition wfGrid :: "grid \<Rightarrow> bool" where
  "wfGrid m = (length m = BOARD_SIDE \<and> (\<forall>row \<in> set m. length row = BOARD_SIDE))"

text \<open>The guard of \<^verbatim>\<open>ApplyLifeRule\<close> on one coordinate (lines 281 and 283).\<close>

definition interior :: "int \<Rightarrow> bool" where
  "interior i = (0 < i \<and> i < int BOARD_SIDE - 1)"

text \<open>Whether a cell counts in the test \<^verbatim>\<open>if ( board[..][..] )\<close> of line 288, and the
  value \<^verbatim>\<open>ApplyLifeRule\<close> stores for an interior cell (lines 293-301).\<close>

definition alive :: "grid \<Rightarrow> int \<Rightarrow> int \<Rightarrow> int" where
  "alive bd i j = (if cell bd i j \<noteq> 0 then 1 else 0)"

definition newCell :: "grid \<Rightarrow> int \<Rightarrow> int \<Rightarrow> uint8_t" where
  "newCell bd row col =
     (let lifeForms = countLifeForms bd row col - 1
      in if lifeForms < 2 \<or> lifeForms > 3 then 0 else 1)"

text \<open>The cells of the first and last row and column.\<close>

definition isBoundary :: "nat \<Rightarrow> nat \<Rightarrow> bool" where
  "isBoundary i j =
     (i < BOARD_SIDE \<and> j < BOARD_SIDE \<and>
      (i = 0 \<or> i = BOARD_SIDE - 1 \<or> j = 0 \<or> j = BOARD_SIDE - 1))"

text \<open>The rule engine as the specification words it (section 4.2): the live cells among
  the 8 cells around \<open>(row, col)\<close>, the cell itself left out, and the transition table on
  that count. They are what the code is compared with, and are not taken from it.\<close>

definition specLiveNeighbours :: "grid \<Rightarrow> int \<Rightarrow> int \<Rightarrow> int" where
  "specLiveNeighbours bd row col =
     alive bd (row - 1) (col - 1) + alive bd (row - 1) col + alive bd (row - 1) (col + 1)
   + alive bd row (col - 1) + alive bd row (col + 1)
   + alive bd (row + 1) (col - 1) + alive bd (row + 1) col + alive bd (row + 1) (col + 1)"

definition specNextState :: "int \<Rightarrow> uint8_t" where
  "specNextState n = (if n < 2 then 0 else if n > 3 then 0 else 1)"

text \<open>The cell value the initialisation stores for a draw \<^verbatim>\<open>random() % 10\<close> (lines 138-142).\<close>

definition cellOfDraw :: "nat \<Rightarrow> uint8_t" where
  "cellOfDraw draw = (if draw = 0 then 1 else 0)"

text \<open>A grid with every cell dead, and a grid whose boundary cells are dead.\<close>

definition allDead :: "grid \<Rightarrow> bool" where
  "allDead bd = (\<forall>i \<in> {0..<BOARD_SIDE}. \<forall>j \<in> {0..<BOARD_SIDE}. cell bd (int i) (int j) = 0)"

definition boundaryDead :: "grid \<Rightarrow> bool" where
  "boundaryDead bd =
     (\<forall>i \<in> {0..<BOARD_SIDE}. \<forall>j \<in> {0..<BOARD_SIDE}.
        isBoundary i j \<longrightarrow> cell bd (int i) (int j) = 0)"

text \<open>The body of \<^verbatim>\<open>for ( ;; )\<close> changes the state in two places: the tick of lines
  155-157 and the handling of one event. \<open>exec\<close> runs any sequence of these two steps,
  stopping where the program exits; \<open>stepsOf\<close> is the sequence \<^verbatim>\<open>SimulationLoop\<close> goes
  through on a given input. A state is one the program can be in when some
  \<open>exec rnd steps (startWorld rnd)\<close> gives it.\<close>

datatype step = Tick | Event SDL_Event

fun exec :: "random_t \<Rightarrow> step list \<Rightarrow> world \<Rightarrow> halt + world" where
  "exec rnd [] w = Inr w"
| "exec rnd (Tick # steps) w = exec rnd steps (tick w)"
| "exec rnd (Event event # steps) w =
     (case handleEvent rnd event w of
        Inl h \<Rightarrow> Inl h
      | Inr w' \<Rightarrow> exec rnd steps w')"

definition stepsOf :: "SDL_Event list list \<Rightarrow> step list" where
  "stepsOf input = concat (map (\<lambda>pending. Tick # map Event pending) input)"

text \<open>The invariants: the work board has its dimensions and a dead boundary; the displayed
  board has a dead boundary as well; the displayed board is dead everywhere.\<close>

definition workInv :: "gameOfLife_t \<Rightarrow> bool" where
  "workInv gol = (wfGrid (workBoard gol) \<and> boundaryDead (workBoard gol))"

definition shownInv :: "gameOfLife_t \<Rightarrow> bool" where
  "shownInv gol = (workInv gol \<and> boundaryDead (board gol))"

definition deadInv :: "gameOfLife_t \<Rightarrow> bool" where
  "deadInv gol = (workInv gol \<and> allDead (board gol))"

section \<open>Concrete states\<close>

text \<open>A generator whose draws number 201, 202, 401 and 601 are multiples of 10: the start
  state it gives has the live cells \<^verbatim>\<open>board[1][1]\<close>, \<^verbatim>\<open>board[2][1]\<close>, \<^verbatim>\<open>board[1][2]\<close>
  and \<^verbatim>\<open>board[1][3]\<close> and no other.\<close>

definition rndBug :: random_t where
  "rndBug k = (if k = 201 \<or> k = 202 \<or> k = 401 \<or> k = 601 then 0 else 1)"

definition bugWorld :: world where
  "bugWorld = startWorld rndBug"

text \<open>That start state with the pause flag set, as the \<^verbatim>\<open>p\<close> key sets it.\<close>

definition pausedBugWorld :: world where
  "pausedBugWorld = bugWorld\<lparr>gameOfLife := (gameOfLife bugWorld)\<lparr>simulationPaused := True\<rparr>\<rparr>"

text \<open>A generator with no draw that is a multiple of 10: every cell starts dead.\<close>

definition rndDead :: random_t where
  "rndDead k = 1"

text \<open>Its start state once the \<^verbatim>\<open>p\<close> key has been handled there.\<close>

definition pausedWorld :: world where
  "pausedWorld =
     (startWorld rndDead)\<lparr>gameOfLife := (gameOfLife (startWorld rndDead))\<lparr>simulationPaused := True\<rparr>\<rparr>"

section \<open>Indices and grids\<close>

lemma BOARD_SIDE_pos: "0 < BOARD_SIDE" by (simp add: BOARD_SIDE_def)

lemma GetRowByIndex_int: "GetRowByIndex (int i) = int (i div BOARD_SIDE)"
  by (simp add: GetRowByIndex_def signed_divide_int_def zdiv_int sgn_if BOARD_SIDE_def)

lemma GetColumnByIndex_int: "GetColumnByIndex (int i) = int (i mod BOARD_SIDE)"
  by (simp add: GetColumnByIndex_def signed_modulo_int_def zmod_int sgn_if BOARD_SIDE_def)

lemma upto_three: "[x - 1..x + 1] = [x - 1, x, x + (1::int)]"
  by (simp add: upto_rec1 [of "x - 1"] upto_rec1 [of x])

lemma countLifeForms_unfold:
  "countLifeForms bd row col =
     alive bd (row - 1) (col - 1) + alive bd (row - 1) col + alive bd (row - 1) (col + 1)
   + alive bd row (col - 1) + alive bd row col + alive bd row (col + 1)
   + alive bd (row + 1) (col - 1) + alive bd (row + 1) col + alive bd (row + 1) (col + 1)"
  by (simp add: countLifeForms_def upto_three alive_def)

lemma wfGrid_set_cell: "wfGrid m \<Longrightarrow> wfGrid (set_cell m i j v)"
proof (cases "nat i < length m")
  case True
  assume "wfGrid m"
  with True show ?thesis
    unfolding wfGrid_def set_cell_def
    by (auto dest!: set_update_subset_insert [THEN subsetD])
next
  case False
  assume "wfGrid m"
  with False show ?thesis
    by (simp add: set_cell_def list_update_beyond)
qed

lemma cell_set_cell:
  "wfGrid m \<Longrightarrow> in_range i \<Longrightarrow> in_range j \<Longrightarrow> 0 \<le> i' \<Longrightarrow> 0 \<le> j' \<Longrightarrow>
   cell (set_cell m i j v) i' j' = (if i' = i \<and> j' = j then v else cell m i' j')"
  unfolding wfGrid_def set_cell_def cell_def in_range_def
  by (auto simp: nth_list_update)

lemma wfGrid_zeroGrid: "wfGrid zeroGrid"
  by (simp add: wfGrid_def zeroGrid_def)

lemma cell_zeroGrid: "in_range i \<Longrightarrow> in_range j \<Longrightarrow> cell zeroGrid i j = 0"
  by (simp add: cell_def zeroGrid_def in_range_def nat_less_iff)

lemma interior_in_range: "interior i \<Longrightarrow> in_range i"
  by (simp add: interior_def in_range_def)

lemma ApplyLifeRule_board [simp]: "board (ApplyLifeRule gol row col) = board gol"
  by (simp add: ApplyLifeRule_def Let_def)

lemma ApplyLifeRule_deltaTime [simp]: "deltaTime (ApplyLifeRule gol row col) = deltaTime gol"
  by (simp add: ApplyLifeRule_def Let_def)

lemma ApplyLifeRule_paused [simp]:
  "simulationPaused (ApplyLifeRule gol row col) = simulationPaused gol"
  by (simp add: ApplyLifeRule_def Let_def)

lemma ApplyLifeRule_workBoard:
  "workBoard (ApplyLifeRule gol row col) =
     (if interior row \<and> interior col
      then set_cell (workBoard gol) row col (newCell (board gol) row col)
      else workBoard gol)"
  by (simp add: ApplyLifeRule_def Let_def interior_def newCell_def)

lemma applyRules_start: "n \<le> BOARD_SIDE \<Longrightarrow> applyRules gol n = gol"
  by (simp add: applyRules_def)

lemma applyRules_Suc:
  "BOARD_SIDE \<le> n \<Longrightarrow>
   applyRules gol (Suc n) =
     ApplyLifeRule (applyRules gol n) (int (n div BOARD_SIDE)) (int (n mod BOARD_SIDE))"
  by (simp add: applyRules_def GetRowByIndex_int GetColumnByIndex_int)

lemma applyRules_board [simp]: "board (applyRules gol n) = board gol"
proof (induction n)
  case 0
  show ?case by (simp add: applyRules_start)
next
  case (Suc n)
  show ?case
  proof (cases "BOARD_SIDE \<le> n")
    case True
    with Suc show ?thesis by (simp add: applyRules_Suc)
  next
    case False
    then show ?thesis by (simp add: applyRules_start)
  qed
qed

lemma applyRules_deltaTime [simp]: "deltaTime (applyRules gol n) = deltaTime gol"
proof (induction n)
  case 0
  show ?case by (simp add: applyRules_start)
next
  case (Suc n)
  show ?case
  proof (cases "BOARD_SIDE \<le> n")
    case True
    with Suc show ?thesis by (simp add: applyRules_Suc)
  next
    case False
    then show ?thesis by (simp add: applyRules_start)
  qed
qed

lemma applyRules_paused [simp]: "simulationPaused (applyRules gol n) = simulationPaused gol"
proof (induction n)
  case 0
  show ?case by (simp add: applyRules_start)
next
  case (Suc n)
  show ?case
  proof (cases "BOARD_SIDE \<le> n")
    case True
    with Suc show ?thesis by (simp add: applyRules_Suc)
  next
    case False
    then show ?thesis by (simp add: applyRules_start)
  qed
qed

lemma applyRules_wfGrid:
  "wfGrid (workBoard gol) \<Longrightarrow> wfGrid (workBoard (applyRules gol n))"
proof (induction n)
  case 0
  then show ?case by (simp add: applyRules_start)
next
  case (Suc n)
  show ?case
  proof (cases "BOARD_SIDE \<le> n")
    case True
    with Suc show ?thesis
      by (simp add: applyRules_Suc ApplyLifeRule_workBoard wfGrid_set_cell)
  next
    case False
    with Suc.prems show ?thesis by (simp add: applyRules_start)
  qed
qed

lemma index_split:
  "j < BOARD_SIDE \<Longrightarrow>
   (i = n div BOARD_SIDE \<and> j = n mod BOARD_SIDE) = (i * BOARD_SIDE + j = n)"
  by auto

lemma applyRules_cell:
  assumes wf: "wfGrid (workBoard gol)" and i: "i < BOARD_SIDE" and j: "j < BOARD_SIDE"
  shows "cell (workBoard (applyRules gol n)) (int i) (int j) =
           (if interior (int i) \<and> interior (int j) \<and> i * BOARD_SIDE + j < n
            then newCell (board gol) (int i) (int j)
            else cell (workBoard gol) (int i) (int j))"
proof (induction n)
  case 0
  show ?case by (simp add: applyRules_start)
next
  case (Suc n)
  show ?case
  proof (cases "BOARD_SIDE \<le> n")
    case False
    then have "n < BOARD_SIDE" by simp
    moreover have "interior (int i) \<Longrightarrow> BOARD_SIDE \<le> i * BOARD_SIDE + j"
      by (cases i) (simp_all add: interior_def)
    ultimately show ?thesis by (auto simp: applyRules_start)
  next
    case True
    let ?r = "n div BOARD_SIDE" and ?c = "n mod BOARD_SIDE"
    let ?g = "applyRules gol n"
    have wf': "wfGrid (workBoard ?g)" using wf by (rule applyRules_wfGrid)
    have here: "(int i = int ?r \<and> int j = int ?c) = (i * BOARD_SIDE + j = n)"
      using index_split [OF j, of i n] by simp
    show ?thesis
    proof (cases "interior (int ?r) \<and> interior (int ?c)")
      case inside: True
      then have "cell (workBoard (applyRules gol (Suc n))) (int i) (int j) =
                 (if int i = int ?r \<and> int j = int ?c then newCell (board gol) (int ?r) (int ?c)
                  else cell (workBoard ?g) (int i) (int j))"
        using True wf' by (simp add: applyRules_Suc ApplyLifeRule_workBoard cell_set_cell
            interior_in_range)
      then show ?thesis
        using Suc.IH here inside by (auto simp: less_Suc_eq)
    next
      case outside: False
      then have "cell (workBoard (applyRules gol (Suc n))) (int i) (int j) =
                 cell (workBoard ?g) (int i) (int j)"
        using True by (auto simp: applyRules_Suc ApplyLifeRule_workBoard)
      moreover have "\<not> (interior (int i) \<and> interior (int j) \<and> i * BOARD_SIDE + j = n)"
        using outside here by auto
      ultimately show ?thesis
        using Suc.IH by (auto simp: less_Suc_eq)
    qed
  qed
qed

section \<open>Speed keys\<close>

text \<open>Claim C6. A minus key event lowers the tick rate by exactly 1 and a plus key event
  raises it by exactly 1, in every state and with no clamping: the rate is a \<^verbatim>\<open>uint8_t\<close>,
  so the arithmetic is modulo 256, 0 goes down to 255 and 255 goes up to 0.\<close>

theorem speed_keys_wrap:
  "(\<exists>w'. handleEvent rnd (SDL_KEYDOWN SDLK_MINUS) w = Inr w' \<and>
         deltaTime (gameOfLife w') = deltaTime (gameOfLife w) - 1 \<and>
         unat (deltaTime (gameOfLife w')) =
           (if unat (deltaTime (gameOfLife w)) = 0 then 255
            else unat (deltaTime (gameOfLife w)) - 1)) \<and>
   (\<exists>w'. handleEvent rnd (SDL_KEYDOWN SDLK_PLUS) w = Inr w' \<and>
         deltaTime (gameOfLife w') = deltaTime (gameOfLife w) + 1 \<and>
         unat (deltaTime (gameOfLife w')) =
           (if unat (deltaTime (gameOfLife w)) = 255 then 0
            else unat (deltaTime (gameOfLife w)) + 1))"
proof -
  let ?d = "deltaTime (gameOfLife w)"
  have lt: "unat ?d < 256" using unsigned_less [of ?d] by simp
  have dec: "unat (?d - 1) = (if unat ?d = 0 then 255 else unat ?d - 1)"
  proof (cases "?d = 0")
    case True
    have "unat (- 1 :: uint8_t) = 255" by (simp add: unsigned_minus_1_eq_mask mask_eq_exp_minus_1)
    with True show ?thesis by simp
  next
    case False
    then have "unat ?d \<noteq> 0" by (simp add: unat_0_iff)
    with False show ?thesis by (simp add: unat_minus_one)
  qed
  have inc: "unat (?d + 1) = (if unat ?d = 255 then 0 else unat ?d + 1)"
    using lt by (simp add: unat_word_ariths)
  show ?thesis using dec inc by simp
qed

section \<open>Mouse clicks\<close>

lemma unat_byte: "unat (of_nat (n mod 256) :: uint8_t) = n mod 256"
  by (simp add: unat_of_nat)

text \<open>Claim C9. A left click stores the three bytes drawn from \<^verbatim>\<open>random() % 256\<close>, in
  this order, in the red, green and blue components of the life colour and leaves the
  background colour alone; a right click does the same to the background colour and leaves
  the life colour alone. The alpha component of the colour written is not touched.\<close>

theorem mouse_click_colors:
  "(\<exists>w'. handleEvent rnd (SDL_MOUSEBUTTONDOWN SDL_BUTTON_LEFT) w = Inr w' \<and>
         unat (col_r (gameColors w')) = rnd (randomCalls w) mod 256 \<and>
         unat (col_g (gameColors w')) = rnd (randomCalls w + 1) mod 256 \<and>
         unat (col_b (gameColors w')) = rnd (randomCalls w + 2) mod 256 \<and>
         col_a (gameColors w') = col_a (gameColors w) \<and>
         backgroundColor w' = backgroundColor w) \<and>
   (\<exists>w'. handleEvent rnd (SDL_MOUSEBUTTONDOWN SDL_BUTTON_RIGHT) w = Inr w' \<and>
         unat (col_r (backgroundColor w')) = rnd (randomCalls w) mod 256 \<and>
         unat (col_g (backgroundColor w')) = rnd (randomCalls w + 1) mod 256 \<and>
         unat (col_b (backgroundColor w')) = rnd (randomCalls w + 2) mod 256 \<and>
         col_a (backgroundColor w') = col_a (backgroundColor w) \<and>
         gameColors w' = gameColors w)"
  by (simp add: Let_def randomizeColor_def unat_byte)

section \<open>The paused state\<close>

text \<open>Claim C2. While the simulation is paused, any number of executions of the tick step
  (lines 155-157) leaves the displayed board unchanged; indeed the whole state.\<close>

theorem tick_paused_noop:
  "simulationPaused (gameOfLife w) \<Longrightarrow>
   (tick ^^ n) w = w \<and> board (gameOfLife ((tick ^^ n) w)) = board (gameOfLife w)"
proof -
  assume p: "simulationPaused (gameOfLife w)"
  have "(tick ^^ n) w = w"
  proof (induction n)
    case 0
    show ?case by simp
  next
    case (Suc n)
    then show ?case using p by (simp add: tick_def)
  qed
  then show ?thesis by simp
qed

theorem tick_paused_noop_witness:
  "simulationPaused (gameOfLife pausedWorld) \<and> (tick ^^ 3) pausedWorld = pausedWorld \<and>
   board (gameOfLife ((tick ^^ 3) pausedWorld)) = board (gameOfLife pausedWorld)"
proof -
  have p: "simulationPaused (gameOfLife pausedWorld)"
    by (simp add: pausedWorld_def)
  from tick_paused_noop [OF p, of 3] p show ?thesis by simp
qed

section \<open>Boundary cells\<close>

lemma cell_set_cell_other:
  assumes "0 \<le> i" "0 \<le> j" "0 \<le> i'" "0 \<le> j'" "\<not> (i = i' \<and> j = j')"
  shows "cell (set_cell m i' j' v) i j = cell m i j"
proof (cases "nat i' < length m")
  case False
  then show ?thesis by (simp add: set_cell_def list_update_beyond)
next
  case True
  show ?thesis
  proof (cases "i = i'")
    case True
    with assms have "nat j \<noteq> nat j'" by auto
    with True \<open>nat i' < length m\<close> show ?thesis
      by (simp add: set_cell_def cell_def)
  next
    case False
    with assms have "nat i \<noteq> nat i'" by auto
    then show ?thesis by (simp add: set_cell_def cell_def)
  qed
qed

lemma isBoundary_not_interior:
  "isBoundary i j \<Longrightarrow> \<not> (interior (int i) \<and> interior (int j))"
  by (auto simp: isBoundary_def interior_def)

lemma applyRules_cell_outside:
  assumes out: "\<not> (interior (int i) \<and> interior (int j))"
  shows "cell (workBoard (applyRules gol n)) (int i) (int j) = cell (workBoard gol) (int i) (int j)"
proof (induction n)
  case 0
  show ?case by (simp add: applyRules_start)
next
  case (Suc n)
  show ?case
  proof (cases "BOARD_SIDE \<le> n")
    case False
    then show ?thesis by (simp add: applyRules_start)
  next
    case True
    let ?r = "int (n div BOARD_SIDE)" and ?c = "int (n mod BOARD_SIDE)"
    show ?thesis
    proof (cases "interior ?r \<and> interior ?c")
      case False
      with True Suc show ?thesis by (auto simp: applyRules_Suc ApplyLifeRule_workBoard)
    next
      case inside: True
      with out have "\<not> (int i = ?r \<and> int j = ?c)" by auto
      then have "cell (set_cell (workBoard (applyRules gol n)) ?r ?c
                   (newCell (board gol) ?r ?c)) (int i) (int j) =
                 cell (workBoard (applyRules gol n)) (int i) (int j)"
        by (intro cell_set_cell_other) simp_all
      with True inside Suc show ?thesis
        by (simp add: applyRules_Suc ApplyLifeRule_workBoard)
    qed
  qed
qed

lemma workBoard_UpdateBoard:
  "workBoard (UpdateBoard gol) = workBoard (applyRules gol (BOARD_SIDE * BOARD_SIDE))"
  by (simp add: UpdateBoard_def Let_def)

lemma board_UpdateBoard:
  "board (UpdateBoard gol) = workBoard (applyRules gol (BOARD_SIDE * BOARD_SIDE))"
  by (simp add: UpdateBoard_def Let_def)

text \<open>Claim C7. At a boundary coordinate (row or column 0 or \<open>BOARD_SIDE - 1\<close>) the rule
  engine writes nothing, and after a whole generation step the work board holds there the
  value it held before the step.\<close>

theorem boundary_never_written:
  "isBoundary i j \<Longrightarrow>
   ApplyLifeRule gol (int i) (int j) = gol \<and>
   cell (workBoard (UpdateBoard gol)) (int i) (int j) = cell (workBoard gol) (int i) (int j)"
proof -
  assume b: "isBoundary i j"
  then have out: "\<not> (interior (int i) \<and> interior (int j))"
    by (rule isBoundary_not_interior)
  then have "ApplyLifeRule gol (int i) (int j) = gol"
    by (auto simp: ApplyLifeRule_def interior_def)
  moreover have "cell (workBoard (UpdateBoard gol)) (int i) (int j) =
                 cell (workBoard gol) (int i) (int j)"
    using out by (simp add: workBoard_UpdateBoard applyRules_cell_outside)
  ultimately show ?thesis by simp
qed

theorem boundary_never_written_witness:
  "isBoundary 0 7 \<and>
   ApplyLifeRule (gameOfLife initialWorld) (int 0) (int 7) = gameOfLife initialWorld \<and>
   cell (workBoard (UpdateBoard (gameOfLife initialWorld))) (int 0) (int 7) =
     cell (workBoard (gameOfLife initialWorld)) (int 0) (int 7)"
proof -
  have b: "isBoundary 0 7" by (simp add: isBoundary_def BOARD_SIDE_def)
  from boundary_never_written [OF b, of "gameOfLife initialWorld"] b show ?thesis by simp
qed

section \<open>Initialisation\<close>

lemma byte_of_draw_zero: "((of_nat (d mod 10) :: uint8_t) = 0) = (d mod 10 = 0)"
proof -
  have "d mod 10 < 10" by simp
  then have "d mod 10 < 256" by linarith
  then have "(256 dvd d mod 10) = (d mod 10 = 0)"
    by (auto dest: dvd_imp_le)
  then show ?thesis by (simp add: word_of_nat_eq_0_iff)
qed

lemma initCell_eq:
  "initCell rnd i w =
     w\<lparr>gameOfLife := (gameOfLife w)
          \<lparr>board := set_cell (board (gameOfLife w)) (int (i mod BOARD_SIDE)) (int (i div BOARD_SIDE))
                      (cellOfDraw (rnd (randomCalls w) mod 10))\<rparr>,
       randomCalls := randomCalls w + 1\<rparr>"
  by (simp add: initCell_def Let_def GetRowByIndex_int GetColumnByIndex_int byte_of_draw_zero
      cellOfDraw_def)

lemma initLoop_Suc:
  "fold (initCell rnd) [0..<Suc n] w = initCell rnd n (fold (initCell rnd) [0..<n] w)"
  by simp

lemma initLoop_randomCalls:
  "randomCalls (fold (initCell rnd) [0..<n] w) = randomCalls w + n"
  by (induction n) (simp_all add: initCell_eq)

lemma initLoop_workBoard:
  "workBoard (gameOfLife (fold (initCell rnd) [0..<n] w)) = workBoard (gameOfLife w)"
  by (induction n) (simp_all add: initCell_eq)

lemma initLoop_deltaTime:
  "deltaTime (gameOfLife (fold (initCell rnd) [0..<n] w)) = deltaTime (gameOfLife w)"
  by (induction n) (simp_all add: initCell_eq)

lemma initLoop_paused:
  "simulationPaused (gameOfLife (fold (initCell rnd) [0..<n] w)) = simulationPaused (gameOfLife w)"
  by (induction n) (simp_all add: initCell_eq)

lemma initLoop_wfGrid:
  "wfGrid (board (gameOfLife w)) \<Longrightarrow> wfGrid (board (gameOfLife (fold (initCell rnd) [0..<n] w)))"
  by (induction n) (simp_all add: initCell_eq wfGrid_set_cell)

lemma initLoop_cell:
  assumes wf: "wfGrid (board (gameOfLife w))" and x: "x < BOARD_SIDE" and y: "y < BOARD_SIDE"
  shows "cell (board (gameOfLife (fold (initCell rnd) [0..<n] w))) (int x) (int y) =
           (if y * BOARD_SIDE + x < n
            then cellOfDraw (rnd (randomCalls w + (y * BOARD_SIDE + x)) mod 10)
            else cell (board (gameOfLife w)) (int x) (int y))"
proof (induction n)
  case 0
  show ?case by simp
next
  case (Suc n)
  let ?w = "fold (initCell rnd) [0..<n] w"
  have wf': "wfGrid (board (gameOfLife ?w))" using wf by (rule initLoop_wfGrid)
  have here: "(int x = int (n mod BOARD_SIDE) \<and> int y = int (n div BOARD_SIDE)) =
              (y * BOARD_SIDE + x = n)"
    using index_split [OF x, of y n] by auto
  have rng: "in_range (int (n mod BOARD_SIDE))"
    using BOARD_SIDE_pos by (simp add: in_range_def)
  show ?case
  proof (cases "n < BOARD_SIDE * BOARD_SIDE")
    case True
    then have "n div BOARD_SIDE < BOARD_SIDE"
      by (simp add: less_mult_imp_div_less)
    then have rng': "in_range (int (n div BOARD_SIDE))" by (simp add: in_range_def)
    have "cell (board (gameOfLife (fold (initCell rnd) [0..<Suc n] w))) (int x) (int y) =
          (if y * BOARD_SIDE + x = n then cellOfDraw (rnd (randomCalls w + n) mod 10)
           else cell (board (gameOfLife ?w)) (int x) (int y))"
      using wf' rng rng' here
      by (simp add: initCell_eq cell_set_cell initLoop_randomCalls)
    then show ?thesis using Suc.IH by (auto simp: less_Suc_eq)
  next
    case False
    have "y * BOARD_SIDE + x < BOARD_SIDE * BOARD_SIDE"
    proof -
      have "y * BOARD_SIDE + x < y * BOARD_SIDE + BOARD_SIDE" using x by simp
      also have "\<dots> = Suc y * BOARD_SIDE" by simp
      also have "\<dots> \<le> BOARD_SIDE * BOARD_SIDE" using y by (simp del: mult_Suc add: Suc_leI)
      finally show ?thesis .
    qed
    with False have ne: "y * BOARD_SIDE + x \<noteq> n" and lt: "y * BOARD_SIDE + x < n" by simp_all
    have "\<not> (int x = int (n mod BOARD_SIDE) \<and> int y = int (n div BOARD_SIDE))"
      using here ne by simp
    then have "cell (board (gameOfLife (fold (initCell rnd) [0..<Suc n] w))) (int x) (int y) =
          cell (board (gameOfLife ?w)) (int x) (int y)"
      by (simp add: initCell_eq) (intro cell_set_cell_other; simp)
    then show ?thesis using Suc.IH lt by simp
  qed
qed

lemma cell_index_bound:
  assumes x: "x < BOARD_SIDE" and y: "y < BOARD_SIDE"
  shows "y * BOARD_SIDE + x < BOARD_SIDE * BOARD_SIDE"
proof -
  have "y * BOARD_SIDE + x < y * BOARD_SIDE + BOARD_SIDE" using x by simp
  also have "\<dots> = Suc y * BOARD_SIDE" by simp
  also have "\<dots> \<le> BOARD_SIDE * BOARD_SIDE" using y by (simp del: mult_Suc add: Suc_leI)
  finally show ?thesis .
qed

lemma cell_index_inject:
  assumes x: "x < BOARD_SIDE" and x': "x' < BOARD_SIDE"
    and eq: "y' * BOARD_SIDE + x' = y * BOARD_SIDE + x"
  shows "x' = x \<and> y' = y"
proof -
  let ?n = "y * BOARD_SIDE + x"
  from index_split [OF x, of y ?n]
  have "y = ?n div BOARD_SIDE \<and> x = ?n mod BOARD_SIDE" by simp
  moreover from index_split [OF x', of y' ?n] eq
  have "y' = ?n div BOARD_SIDE \<and> x' = ?n mod BOARD_SIDE" by simp
  ultimately show ?thesis by simp
qed

lemma randomCalls_initialWorld: "randomCalls initialWorld = 0"
  by (simp add: initialWorld_def)

lemma board_initialWorld: "board (gameOfLife initialWorld) = zeroGrid"
  by (simp add: initialWorld_def)

lemma workBoard_initialWorld: "workBoard (gameOfLife initialWorld) = zeroGrid"
  by (simp add: initialWorld_def)

lemma startWorld_cell:
  "x < BOARD_SIDE \<Longrightarrow> y < BOARD_SIDE \<Longrightarrow>
   cell (board (gameOfLife (startWorld rnd))) (int x) (int y) =
     cellOfDraw (rnd (y * BOARD_SIDE + x) mod 10)"
  by (simp add: startWorld_def InitializeSimulation_def initLoop_cell board_initialWorld
      wfGrid_zeroGrid cell_index_bound randomCalls_initialWorld)

lemma startWorld_workBoard: "workBoard (gameOfLife (startWorld rnd)) = zeroGrid"
  by (simp add: startWorld_def InitializeSimulation_def initLoop_workBoard workBoard_initialWorld)

lemma startWorld_deltaTime: "deltaTime (gameOfLife (startWorld rnd)) = DEFAULT_DELTA_TIME"
  by (simp add: startWorld_def InitializeSimulation_def initLoop_deltaTime initialWorld_def)

lemma startWorld_paused: "\<not> simulationPaused (gameOfLife (startWorld rnd))"
  by (simp add: startWorld_def InitializeSimulation_def initLoop_paused initialWorld_def)

lemma startWorld_randomCalls: "randomCalls (startWorld rnd) = BOARD_SIDE * BOARD_SIDE"
  by (simp add: startWorld_def InitializeSimulation_def initLoop_randomCalls
      randomCalls_initialWorld)

lemma pausedWorld_reached: "EvaluateKey SDLK_p (startWorld rndDead) = Inr pausedWorld"
  by (simp add: pausedWorld_def startWorld_paused)

text \<open>Claim C10. The initialisation makes one draw \<^verbatim>\<open>random() % 10\<close>, a number from 0 to
  9, for every cell of the board, and the cell is 1 exactly when its draw is 0 and 0
  otherwise. The cell \<^verbatim>\<open>board[x][y]\<close> is decided by draw number \<open>y * BOARD_SIDE + x\<close>, no
  two cells share a draw, and \<open>BOARD_SIDE * BOARD_SIDE\<close> draws are made in all. How the
  draws are distributed is a property of \<^verbatim>\<open>random()\<close>, which is a parameter here.\<close>

theorem initial_cell_of_draw:
  "x < BOARD_SIDE \<Longrightarrow> y < BOARD_SIDE \<Longrightarrow>
   rnd (y * BOARD_SIDE + x) mod 10 \<in> {0..9} \<and>
   cell (board (gameOfLife (startWorld rnd))) (int x) (int y) =
     (if rnd (y * BOARD_SIDE + x) mod 10 = 0 then 1 else 0) \<and>
   y * BOARD_SIDE + x < randomCalls (startWorld rnd) \<and>
   randomCalls (startWorld rnd) = BOARD_SIDE * BOARD_SIDE \<and>
   (\<forall>x' y'. x' < BOARD_SIDE \<and> y' * BOARD_SIDE + x' = y * BOARD_SIDE + x \<longrightarrow> x' = x \<and> y' = y)"
proof -
  assume x: "x < BOARD_SIDE" and y: "y < BOARD_SIDE"
  have "rnd (y * BOARD_SIDE + x) mod 10 < 10" by simp
  then have "rnd (y * BOARD_SIDE + x) mod 10 \<in> {0..9}" by auto
  moreover have "cell (board (gameOfLife (startWorld rnd))) (int x) (int y) =
     (if rnd (y * BOARD_SIDE + x) mod 10 = 0 then 1 else 0)"
    using x y by (simp add: startWorld_cell cellOfDraw_def)
  moreover have "y * BOARD_SIDE + x < randomCalls (startWorld rnd)"
    using x y by (simp add: startWorld_randomCalls cell_index_bound)
  moreover have "\<forall>x' y'. x' < BOARD_SIDE \<and> y' * BOARD_SIDE + x' = y * BOARD_SIDE + x
                   \<longrightarrow> x' = x \<and> y' = y"
    using x cell_index_inject by blast
  moreover have "randomCalls (startWorld rnd) = BOARD_SIDE * BOARD_SIDE"
    by (rule startWorld_randomCalls)
  ultimately show ?thesis by blast
qed

theorem initial_cell_of_draw_witness:
  "(3::nat) < BOARD_SIDE \<and> (5::nat) < BOARD_SIDE \<and>
   cell (board (gameOfLife (startWorld (\<lambda>k. if k = 1003 then 20 else 7)))) (int 3) (int 5) = 1 \<and>
   cell (board (gameOfLife (startWorld (\<lambda>k. if k = 1003 then 20 else 7)))) (int 4) (int 5) = 0"
proof -
  have a: "(3::nat) < BOARD_SIDE" and b: "(5::nat) < BOARD_SIDE" and c: "(4::nat) < BOARD_SIDE"
    by (simp_all add: BOARD_SIDE_def)
  from initial_cell_of_draw [OF a b, of "\<lambda>k. if k = 1003 then 20 else 7"]
       initial_cell_of_draw [OF c b, of "\<lambda>k. if k = 1003 then 20 else 7"] a b
  show ?thesis by (simp add: BOARD_SIDE_def)
qed

section \<open>One generation step\<close>

lemma UpdateBoard_deltaTime [simp]: "deltaTime (UpdateBoard gol) = deltaTime gol"
  by (simp add: UpdateBoard_def Let_def)

lemma UpdateBoard_paused [simp]: "simulationPaused (UpdateBoard gol) = simulationPaused gol"
  by (simp add: UpdateBoard_def Let_def)

lemma UpdateBoard_copies: "workBoard (UpdateBoard gol) = board (UpdateBoard gol)"
  by (simp add: UpdateBoard_def Let_def)

lemma UpdateBoard_wfGrid:
  "wfGrid (workBoard gol) \<Longrightarrow> wfGrid (board (UpdateBoard gol))"
  by (simp add: board_UpdateBoard applyRules_wfGrid)

lemma UpdateBoard_interior:
  assumes "wfGrid (workBoard gol)" "interior (int i)" "interior (int j)"
  shows "cell (board (UpdateBoard gol)) (int i) (int j) = newCell (board gol) (int i) (int j)"
proof -
  from assms have i: "i < BOARD_SIDE" and j: "j < BOARD_SIDE"
    by (simp_all add: interior_def)
  then show ?thesis
    using assms by (simp add: board_UpdateBoard applyRules_cell cell_index_bound)
qed

lemma UpdateBoard_outside:
  "\<not> (interior (int i) \<and> interior (int j)) \<Longrightarrow>
   cell (board (UpdateBoard gol)) (int i) (int j) = cell (workBoard gol) (int i) (int j)"
  by (simp add: board_UpdateBoard applyRules_cell_outside)

section \<open>The rule on interior cells\<close>

lemma countLifeForms_neighbours:
  "countLifeForms bd row col = specLiveNeighbours bd row col + alive bd row col"
  by (simp add: countLifeForms_unfold specLiveNeighbours_def)

lemma newCell_live_cell:
  "cell bd row col \<noteq> 0 \<Longrightarrow> newCell bd row col = specNextState (specLiveNeighbours bd row col)"
  by (simp add: newCell_def countLifeForms_neighbours alive_def specNextState_def Let_def)

lemma newCell_dead_cell:
  "cell bd row col = 0 \<Longrightarrow> newCell bd row col = specNextState (specLiveNeighbours bd row col - 1)"
  by (simp add: newCell_def countLifeForms_neighbours alive_def specNextState_def Let_def)

lemma ApplyLifeRule_interior:
  assumes "wfGrid (workBoard gol)" "interior row" "interior col"
  shows "cell (workBoard (ApplyLifeRule gol row col)) row col = newCell (board gol) row col"
  using assms by (simp add: ApplyLifeRule_workBoard cell_set_cell interior_in_range interior_def)

lemma startWorld_cell_int:
  assumes "in_range i" "in_range j"
  shows "cell (board (gameOfLife (startWorld rnd))) i j =
           cellOfDraw (rnd (nat j * BOARD_SIDE + nat i) mod 10)"
proof -
  from assms have "nat i < BOARD_SIDE" "nat j < BOARD_SIDE" "i = int (nat i)" "j = int (nat j)"
    by (simp_all add: in_range_def nat_less_iff)
  then show ?thesis using startWorld_cell [of "nat i" "nat j" rnd] by simp
qed

lemma UpdateBoard_interior_int:
  assumes "wfGrid (workBoard gol)" "interior row" "interior col"
  shows "cell (board (UpdateBoard gol)) row col = newCell (board gol) row col"
proof -
  from assms have "row = int (nat row)" "col = int (nat col)"
    by (simp_all add: interior_def)
  then show ?thesis using UpdateBoard_interior [of gol "nat row" "nat col"] assms by simp
qed

lemma UpdateBoard_rule:
  assumes "wfGrid (workBoard gol)" "interior row" "interior col"
  shows "cell (board (UpdateBoard gol)) row col =
           specNextState (specLiveNeighbours (board gol) row col + alive (board gol) row col - 1)"
  using assms
  by (simp add: UpdateBoard_interior_int newCell_def countLifeForms_neighbours specNextState_def Let_def)

lemma bugWorld_cell:
  "in_range i \<Longrightarrow> in_range j \<Longrightarrow>
   cell (board (gameOfLife bugWorld)) i j =
     cellOfDraw (rndBug (nat j * BOARD_SIDE + nat i) mod 10)"
  unfolding bugWorld_def by (rule startWorld_cell_int)

lemma bugWorld_wf: "wfGrid (workBoard (gameOfLife bugWorld))"
  by (simp add: bugWorld_def startWorld_workBoard wfGrid_zeroGrid)

lemma bugWorld_neighbours_2_3: "specLiveNeighbours (board (gameOfLife bugWorld)) 2 3 = 2"
  by (simp add: specLiveNeighbours_def alive_def bugWorld_cell in_range_def BOARD_SIDE_def
      rndBug_def cellOfDraw_def)

lemma bugWorld_neighbours_2_2: "specLiveNeighbours (board (gameOfLife bugWorld)) 2 2 = 4"
  by (simp add: specLiveNeighbours_def alive_def bugWorld_cell in_range_def BOARD_SIDE_def
      rndBug_def cellOfDraw_def)

lemma bugWorld_dead_2_3: "cell (board (gameOfLife bugWorld)) 2 3 = 0"
  by (simp add: bugWorld_cell in_range_def BOARD_SIDE_def rndBug_def cellOfDraw_def)

lemma bugWorld_dead_2_2: "cell (board (gameOfLife bugWorld)) 2 2 = 0"
  by (simp add: bugWorld_cell in_range_def BOARD_SIDE_def rndBug_def cellOfDraw_def)

lemma interior_2: "interior 2" and interior_3: "interior 3"
  by (simp_all add: interior_def BOARD_SIDE_def)

text \<open>Claim C1 says that the next state of an interior cell follows the table on the count
  of its 8 neighbours, whatever the cell itself holds. The code counts the 3 x 3 block and
  subtracts one unconditionally, so for a dead cell it applies the table to the count of
  neighbours less one (\<open>UpdateBoard_rule\<close>, \<open>newCell_dead_cell\<close>). In the start state of
  \<open>rndBug\<close> the dead cell (2, 3) has 2 live neighbours and stays dead, and the dead cell
  (2, 2) has 4 live neighbours and becomes alive.\<close>

theorem dead_cell_rule_diverges:
  "cell (board (gameOfLife bugWorld)) 2 3 = 0 \<and>
   specLiveNeighbours (board (gameOfLife bugWorld)) 2 3 = 2 \<and>
   specNextState (specLiveNeighbours (board (gameOfLife bugWorld)) 2 3) = 1 \<and>
   cell (workBoard (ApplyLifeRule (gameOfLife bugWorld) 2 3)) 2 3 = 0 \<and>
   cell (board (UpdateBoard (gameOfLife bugWorld))) 2 3 = 0 \<and>
   cell (board (gameOfLife bugWorld)) 2 2 = 0 \<and>
   specLiveNeighbours (board (gameOfLife bugWorld)) 2 2 = 4 \<and>
   specNextState (specLiveNeighbours (board (gameOfLife bugWorld)) 2 2) = 0 \<and>
   cell (workBoard (ApplyLifeRule (gameOfLife bugWorld) 2 2)) 2 2 = 1 \<and>
   cell (board (UpdateBoard (gameOfLife bugWorld))) 2 2 = 1"
proof -
  let ?g = "gameOfLife bugWorld"
  have n23: "newCell (board ?g) 2 3 = 0"
    by (simp add: newCell_dead_cell bugWorld_dead_2_3 bugWorld_neighbours_2_3 specNextState_def)
  have n22: "newCell (board ?g) 2 2 = 1"
    by (simp add: newCell_dead_cell bugWorld_dead_2_2 bugWorld_neighbours_2_2 specNextState_def)
  have "cell (workBoard (ApplyLifeRule ?g 2 3)) 2 3 = 0"
    using ApplyLifeRule_interior [OF bugWorld_wf interior_2 interior_3] n23 by simp
  moreover have "cell (board (UpdateBoard ?g)) 2 3 = 0"
    using UpdateBoard_interior_int [OF bugWorld_wf interior_2 interior_3] n23 by simp
  moreover have "cell (workBoard (ApplyLifeRule ?g 2 2)) 2 2 = 1"
    using ApplyLifeRule_interior [OF bugWorld_wf interior_2 interior_2] n22 by simp
  moreover have "cell (board (UpdateBoard ?g)) 2 2 = 1"
    using UpdateBoard_interior_int [OF bugWorld_wf interior_2 interior_2] n22 by simp
  moreover have "specNextState (specLiveNeighbours (board ?g) 2 3) = 1"
    "specNextState (specLiveNeighbours (board ?g) 2 2) = 0"
    by (simp_all add: bugWorld_neighbours_2_3 bugWorld_neighbours_2_2 specNextState_def)
  ultimately show ?thesis
    using bugWorld_dead_2_3 bugWorld_dead_2_2 bugWorld_neighbours_2_3 bugWorld_neighbours_2_2
    by blast
qed

section \<open>A mouse click in any state\<close>

lemma Abort_placeholder:
  "Abort ''Cannot initialize SDL2: {}'' = UndefinedBehaviour"
  "Abort ''[-] Cannot create window: {}'' = UndefinedBehaviour"
  "Abort ''[-] Cannot create renderer: {}'' = UndefinedBehaviour"
  by simp_all

lemma bugWorld_newCell_2_2: "newCell (board (gameOfLife bugWorld)) 2 2 = 1"
  by (simp add: newCell_dead_cell bugWorld_dead_2_2 bugWorld_neighbours_2_2 specNextState_def)

lemma pausedBugWorld_reached: "EvaluateKey SDLK_p bugWorld = Inr pausedBugWorld"
  by (simp add: pausedBugWorld_def bugWorld_def startWorld_paused)

text \<open>Claim C3. Handling a mouse-button-down event runs the full board update without
  looking at the pause flag, which it leaves as it is: every interior cell of the displayed
  board becomes the value the rule computes from the board displayed before the click
  (\<open>newCell\<close>: the block count less one, dead below 2 and above 3, alive otherwise), every
  boundary cell becomes the work board's entry, and the work board is the same grid. The
  only hypothesis is that the work board has the dimensions of the array; nothing is asked
  of the pause flag, so the paused states are covered, where the tick step does nothing.\<close>

theorem mouse_click_updates_board:
  "wfGrid (workBoard (gameOfLife w)) \<Longrightarrow>
   \<exists>w'. handleEvent rnd (SDL_MOUSEBUTTONDOWN button) w = Inr w' \<and>
        gameOfLife w' = UpdateBoard (gameOfLife w) \<and>
        simulationPaused (gameOfLife w') = simulationPaused (gameOfLife w) \<and>
        workBoard (gameOfLife w') = board (gameOfLife w') \<and>
        (\<forall>row col. interior row \<and> interior col \<longrightarrow>
           cell (board (gameOfLife w')) row col = newCell (board (gameOfLife w)) row col) \<and>
        (\<forall>i j. isBoundary i j \<longrightarrow>
           cell (board (gameOfLife w')) (int i) (int j) =
             cell (workBoard (gameOfLife w)) (int i) (int j))"
proof -
  assume wf: "wfGrid (workBoard (gameOfLife w))"
  let ?w1 = "if button = SDL_BUTTON_LEFT
             then w\<lparr>gameColors := randomizeColor rnd (randomCalls w) (gameColors w)\<rparr>
             else w\<lparr>backgroundColor := randomizeColor rnd (randomCalls w) (backgroundColor w)\<rparr>"
  let ?w' = "?w1\<lparr>gameOfLife := UpdateBoard (gameOfLife ?w1), randomCalls := randomCalls w + 3\<rparr>"
  have ev: "handleEvent rnd (SDL_MOUSEBUTTONDOWN button) w = Inr ?w'"
    by (simp add: Let_def)
  have g: "gameOfLife ?w' = UpdateBoard (gameOfLife w)" by simp
  have inner: "\<forall>row col. interior row \<and> interior col \<longrightarrow>
                 cell (board (UpdateBoard (gameOfLife w))) row col =
                   newCell (board (gameOfLife w)) row col"
    using wf by (simp add: UpdateBoard_interior_int)
  have outer: "\<forall>i j. isBoundary i j \<longrightarrow>
                 cell (board (UpdateBoard (gameOfLife w))) (int i) (int j) =
                   cell (workBoard (gameOfLife w)) (int i) (int j)"
    using isBoundary_not_interior by (simp add: UpdateBoard_outside)
  have "gameOfLife ?w' = UpdateBoard (gameOfLife w) \<and>
        simulationPaused (gameOfLife ?w') = simulationPaused (gameOfLife w) \<and>
        workBoard (gameOfLife ?w') = board (gameOfLife ?w') \<and>
        (\<forall>row col. interior row \<and> interior col \<longrightarrow>
           cell (board (gameOfLife ?w')) row col = newCell (board (gameOfLife w)) row col) \<and>
        (\<forall>i j. isBoundary i j \<longrightarrow>
           cell (board (gameOfLife ?w')) (int i) (int j) =
             cell (workBoard (gameOfLife w)) (int i) (int j))"
    unfolding g using inner outer by (simp add: UpdateBoard_copies)
  with ev show ?thesis by blast
qed

text \<open>In the paused start state of \<open>rndBug\<close> the dead cell (2, 2) stays dead under the tick
  step and is alive after a click.\<close>

theorem mouse_click_updates_board_witness:
  "wfGrid (workBoard (gameOfLife pausedBugWorld)) \<and>
   simulationPaused (gameOfLife pausedBugWorld) \<and>
   cell (board (gameOfLife pausedBugWorld)) 2 2 = 0 \<and>
   cell (board (gameOfLife (tick pausedBugWorld))) 2 2 = 0 \<and>
   (\<exists>w'. handleEvent rndBug (SDL_MOUSEBUTTONDOWN SDL_BUTTON_LEFT) pausedBugWorld = Inr w' \<and>
         simulationPaused (gameOfLife w') \<and>
         cell (board (gameOfLife w')) 2 2 = 1)"
proof -
  have wf: "wfGrid (workBoard (gameOfLife pausedBugWorld))"
    using bugWorld_wf by (simp add: pausedBugWorld_def)
  have p: "simulationPaused (gameOfLife pausedBugWorld)"
    by (simp add: pausedBugWorld_def)
  have b: "board (gameOfLife pausedBugWorld) = board (gameOfLife bugWorld)"
    by (simp add: pausedBugWorld_def)
  have dead: "cell (board (gameOfLife pausedBugWorld)) 2 2 = 0"
    by (simp add: b bugWorld_dead_2_2)
  have still: "cell (board (gameOfLife (tick pausedBugWorld))) 2 2 = 0"
    using p dead by (simp add: tick_def)
  from mouse_click_updates_board [OF wf, of rndBug SDL_BUTTON_LEFT]
  obtain w' where ev: "handleEvent rndBug (SDL_MOUSEBUTTONDOWN SDL_BUTTON_LEFT) pausedBugWorld = Inr w'"
    and flag: "simulationPaused (gameOfLife w') = simulationPaused (gameOfLife pausedBugWorld)"
    and inner: "\<forall>row col. interior row \<and> interior col \<longrightarrow>
                  cell (board (gameOfLife w')) row col =
                    newCell (board (gameOfLife pausedBugWorld)) row col"
    by blast
  from inner interior_2 have "cell (board (gameOfLife w')) 2 2 = newCell (board (gameOfLife bugWorld)) 2 2"
    by (simp add: b)
  then have "cell (board (gameOfLife w')) 2 2 = 1" by (simp add: bugWorld_newCell_2_2)
  with ev flag p wf dead still show ?thesis by blast
qed

section \<open>Invariants of the run\<close>

lemma isBoundary_iff:
  "isBoundary i j = (i < BOARD_SIDE \<and> j < BOARD_SIDE \<and> \<not> (interior (int i) \<and> interior (int j)))"
  by (auto simp: isBoundary_def interior_def)

lemma allDead_cell:
  assumes "allDead bd" "in_range i" "in_range j"
  shows "cell bd i j = 0"
proof -
  from assms(2,3) have "nat i < BOARD_SIDE" "nat j < BOARD_SIDE" "i = int (nat i)" "j = int (nat j)"
    by (simp_all add: in_range_def nat_less_iff)
  with assms(1) show ?thesis unfolding allDead_def
    by (metis atLeastLessThan_iff le0)
qed

lemma interior_neighbours_in_range:
  "interior i \<Longrightarrow> in_range (i - 1) \<and> in_range i \<and> in_range (i + 1)"
  by (simp add: interior_def in_range_def)

lemma newCell_allDead:
  assumes "allDead bd" "interior row" "interior col"
  shows "newCell bd row col = 0"
proof -
  from assms(2,3) have "in_range (row - 1)" "in_range row" "in_range (row + 1)"
    "in_range (col - 1)" "in_range col" "in_range (col + 1)"
    using interior_neighbours_in_range by blast+
  then have "countLifeForms bd row col = 0"
    using assms(1) by (simp add: countLifeForms_unfold alive_def allDead_cell)
  then show ?thesis by (simp add: newCell_def)
qed

lemma boundaryDead_UpdateBoard:
  assumes "boundaryDead (workBoard gol)"
  shows "boundaryDead (board (UpdateBoard gol))"
  unfolding boundaryDead_def
proof (intro ballI impI)
  fix i j assume "i \<in> {0..<BOARD_SIDE}" "j \<in> {0..<BOARD_SIDE}" and b: "isBoundary i j"
  then have "cell (workBoard gol) (int i) (int j) = 0"
    using assms by (simp add: boundaryDead_def)
  moreover from b have "\<not> (interior (int i) \<and> interior (int j))"
    by (rule isBoundary_not_interior)
  ultimately show "cell (board (UpdateBoard gol)) (int i) (int j) = 0"
    by (simp add: UpdateBoard_outside)
qed

lemma workInv_UpdateBoard:
  assumes "workInv gol"
  shows "workInv (UpdateBoard gol)"
proof -
  from assms have "wfGrid (board (UpdateBoard gol))" "boundaryDead (board (UpdateBoard gol))"
    by (simp_all add: workInv_def UpdateBoard_wfGrid boundaryDead_UpdateBoard)
  then show ?thesis by (simp add: workInv_def UpdateBoard_copies)
qed

lemma allDead_UpdateBoard:
  assumes inv: "workInv gol" and dead: "allDead (board gol)"
  shows "allDead (board (UpdateBoard gol))"
  unfolding allDead_def
proof (intro ballI)
  fix i j assume i: "i \<in> {0..<BOARD_SIDE}" and j: "j \<in> {0..<BOARD_SIDE}"
  show "cell (board (UpdateBoard gol)) (int i) (int j) = 0"
  proof (cases "interior (int i) \<and> interior (int j)")
    case True
    with inv dead show ?thesis
      by (simp add: workInv_def UpdateBoard_interior newCell_allDead)
  next
    case False
    with i j have "isBoundary i j" by (simp add: isBoundary_iff)
    with inv i j have "cell (workBoard gol) (int i) (int j) = 0"
      by (simp add: workInv_def boundaryDead_def)
    with False show ?thesis by (simp add: UpdateBoard_outside)
  qed
qed

lemma allDead_generations:
  "workInv gol \<Longrightarrow> allDead (board gol) \<Longrightarrow>
   workInv ((UpdateBoard ^^ n) gol) \<and> allDead (board ((UpdateBoard ^^ n) gol))"
  by (induction n) (simp_all add: workInv_UpdateBoard allDead_UpdateBoard)

lemma boundaryDead_zeroGrid: "boundaryDead zeroGrid"
  by (simp add: boundaryDead_def cell_zeroGrid in_range_def)

lemma workInv_startWorld: "workInv (gameOfLife (startWorld rnd))"
  by (simp add: workInv_def startWorld_workBoard wfGrid_zeroGrid boundaryDead_zeroGrid)

lemma workInv_tick:
  assumes "workInv (gameOfLife w)"
  shows "workInv (gameOfLife (tick w))"
proof (cases "simulationPaused (gameOfLife w)")
  case True
  with assms show ?thesis by (simp add: tick_def)
next
  case False
  from assms have "workInv (UpdateBoard (gameOfLife w))" by (rule workInv_UpdateBoard)
  with False show ?thesis by (simp add: tick_def)
qed

lemma workInv_EvaluateKey:
  "workInv (gameOfLife w) \<Longrightarrow> EvaluateKey key w = Inr w' \<Longrightarrow> workInv (gameOfLife w')"
  by (cases key) (auto simp: workInv_def)

lemma workInv_handleEvent:
  "workInv (gameOfLife w) \<Longrightarrow> handleEvent rnd event w = Inr w' \<Longrightarrow> workInv (gameOfLife w')"
proof (cases event)
  case (SDL_MOUSEBUTTONDOWN button)
  assume inv: "workInv (gameOfLife w)" and "handleEvent rnd event w = Inr w'"
  then have w': "gameOfLife w' = UpdateBoard (gameOfLife w)"
    using SDL_MOUSEBUTTONDOWN by (auto simp: Let_def)
  from inv have "workInv (UpdateBoard (gameOfLife w))" by (rule workInv_UpdateBoard)
  with w' show ?thesis by simp
qed (auto simp: workInv_EvaluateKey)

lemma workInv_exec:
  "workInv (gameOfLife w) \<Longrightarrow> exec rnd steps w = Inr w' \<Longrightarrow> workInv (gameOfLife w')"
proof (induction steps arbitrary: w)
  case Nil
  then show ?case by simp
next
  case (Cons s steps)
  show ?case
  proof (cases s)
    case Tick
    with Cons.prems have run: "exec rnd steps (tick w) = Inr w'" by simp
    have "workInv (gameOfLife (tick w))" using Cons.prems(1) by (rule workInv_tick)
    then show ?thesis using run by (rule Cons.IH)
  next
    case (Event event)
    with Cons.prems obtain w1 where ev: "handleEvent rnd event w = Inr w1"
      and run: "exec rnd steps w1 = Inr w'"
      by (auto split: sum.splits)
    have "workInv (gameOfLife w1)" using Cons.prems(1) ev by (rule workInv_handleEvent)
    then show ?thesis using run by (rule Cons.IH)
  qed
qed

lemma shownInv_UpdateBoard:
  assumes "workInv gol"
  shows "shownInv (UpdateBoard gol)"
proof -
  have "workInv (UpdateBoard gol)" using assms by (rule workInv_UpdateBoard)
  moreover have "boundaryDead (board (UpdateBoard gol))"
    using assms by (simp add: workInv_def boundaryDead_UpdateBoard)
  ultimately show ?thesis by (simp add: shownInv_def)
qed

lemma shownInv_tick:
  assumes "shownInv (gameOfLife w)"
  shows "shownInv (gameOfLife (tick w))"
proof (cases "simulationPaused (gameOfLife w)")
  case True
  with assms show ?thesis by (simp add: tick_def)
next
  case False
  from assms have "workInv (gameOfLife w)" by (simp add: shownInv_def)
  then have "shownInv (UpdateBoard (gameOfLife w))" by (rule shownInv_UpdateBoard)
  with False show ?thesis by (simp add: tick_def)
qed

lemma shownInv_EvaluateKey:
  "shownInv (gameOfLife w) \<Longrightarrow> EvaluateKey key w = Inr w' \<Longrightarrow> shownInv (gameOfLife w')"
  by (cases key) (auto simp: shownInv_def workInv_def)

lemma shownInv_handleEvent:
  "shownInv (gameOfLife w) \<Longrightarrow> handleEvent rnd event w = Inr w' \<Longrightarrow> shownInv (gameOfLife w')"
proof (cases event)
  case (SDL_MOUSEBUTTONDOWN button)
  assume "shownInv (gameOfLife w)" "handleEvent rnd event w = Inr w'"
  then have inv: "workInv (gameOfLife w)" and w': "gameOfLife w' = UpdateBoard (gameOfLife w)"
    using SDL_MOUSEBUTTONDOWN by (auto simp: Let_def shownInv_def)
  from inv have "shownInv (UpdateBoard (gameOfLife w))" by (rule shownInv_UpdateBoard)
  with w' show ?thesis by simp
qed (auto simp: shownInv_EvaluateKey)

lemma shownInv_exec:
  "shownInv (gameOfLife w) \<Longrightarrow> exec rnd steps w = Inr w' \<Longrightarrow> shownInv (gameOfLife w')"
proof (induction steps arbitrary: w)
  case Nil
  then show ?case by simp
next
  case (Cons s steps)
  show ?case
  proof (cases s)
    case Tick
    with Cons.prems have run: "exec rnd steps (tick w) = Inr w'" by simp
    have "shownInv (gameOfLife (tick w))" using Cons.prems(1) by (rule shownInv_tick)
    then show ?thesis using run by (rule Cons.IH)
  next
    case (Event event)
    with Cons.prems obtain w1 where ev: "handleEvent rnd event w = Inr w1"
      and run: "exec rnd steps w1 = Inr w'"
      by (auto split: sum.splits)
    have "shownInv (gameOfLife w1)" using Cons.prems(1) ev by (rule shownInv_handleEvent)
    then show ?thesis using run by (rule Cons.IH)
  qed
qed

lemma deadInv_UpdateBoard:
  assumes "deadInv gol"
  shows "deadInv (UpdateBoard gol)"
proof -
  from assms have inv: "workInv gol" and dead: "allDead (board gol)"
    by (simp_all add: deadInv_def)
  from inv have "workInv (UpdateBoard gol)" by (rule workInv_UpdateBoard)
  moreover from inv dead have "allDead (board (UpdateBoard gol))" by (rule allDead_UpdateBoard)
  ultimately show ?thesis by (simp add: deadInv_def)
qed

lemma deadInv_generations: "deadInv gol \<Longrightarrow> deadInv ((UpdateBoard ^^ n) gol)"
  by (induction n) (simp_all add: deadInv_UpdateBoard)

lemma deadInv_tick:
  assumes "deadInv (gameOfLife w)"
  shows "deadInv (gameOfLife (tick w))"
proof (cases "simulationPaused (gameOfLife w)")
  case True
  with assms show ?thesis by (simp add: tick_def)
next
  case False
  from assms have "deadInv (UpdateBoard (gameOfLife w))" by (rule deadInv_UpdateBoard)
  with False show ?thesis by (simp add: tick_def)
qed

lemma deadInv_EvaluateKey:
  "deadInv (gameOfLife w) \<Longrightarrow> EvaluateKey key w = Inr w' \<Longrightarrow> deadInv (gameOfLife w')"
  by (cases key) (auto simp: deadInv_def workInv_def)

lemma deadInv_handleEvent:
  "deadInv (gameOfLife w) \<Longrightarrow> handleEvent rnd event w = Inr w' \<Longrightarrow> deadInv (gameOfLife w')"
proof (cases event)
  case (SDL_MOUSEBUTTONDOWN button)
  assume inv: "deadInv (gameOfLife w)" and "handleEvent rnd event w = Inr w'"
  then have w': "gameOfLife w' = UpdateBoard (gameOfLife w)"
    using SDL_MOUSEBUTTONDOWN by (auto simp: Let_def)
  from inv have "deadInv (UpdateBoard (gameOfLife w))" by (rule deadInv_UpdateBoard)
  with w' show ?thesis by simp
qed (auto simp: deadInv_EvaluateKey)

lemma deadInv_exec:
  "deadInv (gameOfLife w) \<Longrightarrow> exec rnd steps w = Inr w' \<Longrightarrow> deadInv (gameOfLife w')"
proof (induction steps arbitrary: w)
  case Nil
  then show ?case by simp
next
  case (Cons s steps)
  show ?case
  proof (cases s)
    case Tick
    with Cons.prems have run: "exec rnd steps (tick w) = Inr w'" by simp
    have "deadInv (gameOfLife (tick w))" using Cons.prems(1) by (rule deadInv_tick)
    then show ?thesis using run by (rule Cons.IH)
  next
    case (Event event)
    with Cons.prems obtain w1 where ev: "handleEvent rnd event w = Inr w1"
      and run: "exec rnd steps w1 = Inr w'"
      by (auto split: sum.splits)
    have "deadInv (gameOfLife w1)" using Cons.prems(1) ev by (rule deadInv_handleEvent)
    then show ?thesis using run by (rule Cons.IH)
  qed
qed

lemma workInv_reachable:
  "exec rnd steps (startWorld rnd) = Inr w \<Longrightarrow> workInv (gameOfLife w)"
  using workInv_startWorld by (rule workInv_exec)

section \<open>The dead board\<close>

text \<open>Claim C4. In every state the program can be in, if all the cells of the displayed
  board are dead, they are all dead after any number of generation steps, and in every
  state the run goes through from there: an interior cell has no live cell in its block and
  gets 0, and a boundary cell gets the work board's entry, which is 0.\<close>

theorem dead_board_stays_dead:
  "exec rnd steps (startWorld rnd) = Inr w \<Longrightarrow> allDead (board (gameOfLife w)) \<Longrightarrow>
   allDead (board ((UpdateBoard ^^ n) (gameOfLife w))) \<and>
   (\<forall>steps' w'. exec rnd steps' w = Inr w' \<longrightarrow> allDead (board (gameOfLife w')))"
proof -
  assume run: "exec rnd steps (startWorld rnd) = Inr w" and dead: "allDead (board (gameOfLife w))"
  from run have "workInv (gameOfLife w)" by (rule workInv_reachable)
  with dead have inv: "deadInv (gameOfLife w)" by (simp add: deadInv_def)
  then have "deadInv ((UpdateBoard ^^ n) (gameOfLife w))" by (rule deadInv_generations)
  moreover have "\<forall>steps' w'. exec rnd steps' w = Inr w' \<longrightarrow> deadInv (gameOfLife w')"
    using inv deadInv_exec by blast
  ultimately show ?thesis by (simp add: deadInv_def)
qed

lemma allDead_startWorld_rndDead: "allDead (board (gameOfLife (startWorld rndDead)))"
  by (simp add: allDead_def startWorld_cell rndDead_def cellOfDraw_def)

theorem dead_board_stays_dead_witness:
  "allDead (board (gameOfLife (startWorld rndDead))) \<and>
   allDead (board ((UpdateBoard ^^ 2) (gameOfLife (startWorld rndDead)))) \<and>
   allDead (board (gameOfLife (tick (tick (startWorld rndDead)))))"
proof -
  have run: "exec rndDead [] (startWorld rndDead) = Inr (startWorld rndDead)" by simp
  have run': "exec rndDead [Tick, Tick] (startWorld rndDead) = Inr (tick (tick (startWorld rndDead)))"
    by simp
  from dead_board_stays_dead [OF run allDead_startWorld_rndDead, of 2] run'
  show ?thesis using allDead_startWorld_rndDead by blast
qed

section \<open>The boundary of the displayed board\<close>

lemma shown_boundary_dead_from:
  assumes run: "exec rnd steps (startWorld rnd) = Inr w"
    and run': "exec rnd steps' (w\<lparr>gameOfLife := UpdateBoard (gameOfLife w)\<rparr>) = Inr w'"
  shows "boundaryDead (board (gameOfLife w'))"
proof -
  from run have inv: "workInv (gameOfLife w)" by (rule workInv_reachable)
  then have "shownInv (UpdateBoard (gameOfLife w))" by (rule shownInv_UpdateBoard)
  then have "shownInv (gameOfLife (w\<lparr>gameOfLife := UpdateBoard (gameOfLife w)\<rparr>))" by simp
  then have "shownInv (gameOfLife w')" using run' by (rule shownInv_exec)
  then show ?thesis by (simp add: shownInv_def)
qed

text \<open>Claim C8. The work board starts zeroed and its boundary is never written, so it is dead
  on the boundary in every state the program can be in; once a generation step has been
  committed, the boundary of the displayed board is dead and stays dead through every
  later step of the run.\<close>

theorem boundary_dead_after_first_step:
  "exec rnd steps (startWorld rnd) = Inr w \<Longrightarrow>
   exec rnd steps' (w\<lparr>gameOfLife := UpdateBoard (gameOfLife w)\<rparr>) = Inr w' \<Longrightarrow>
   boundaryDead (workBoard (gameOfLife w)) \<and> boundaryDead (board (gameOfLife w'))"
proof -
  assume run: "exec rnd steps (startWorld rnd) = Inr w"
    and run': "exec rnd steps' (w\<lparr>gameOfLife := UpdateBoard (gameOfLife w)\<rparr>) = Inr w'"
  from run have inv: "workInv (gameOfLife w)" by (rule workInv_reachable)
  then have "shownInv (UpdateBoard (gameOfLife w))" by (rule shownInv_UpdateBoard)
  then have "shownInv (gameOfLife (w\<lparr>gameOfLife := UpdateBoard (gameOfLife w)\<rparr>))" by simp
  then have "shownInv (gameOfLife w')" using run' by (rule shownInv_exec)
  with inv show ?thesis by (simp add: shownInv_def workInv_def)
qed

theorem boundary_dead_after_first_step_witness:
  "boundaryDead (workBoard (gameOfLife bugWorld)) \<and>
   boundaryDead (board (gameOfLife (tick (bugWorld\<lparr>gameOfLife := UpdateBoard (gameOfLife bugWorld)\<rparr>))))"
proof -
  have run: "exec rndBug [] (startWorld rndBug) = Inr bugWorld" by (simp add: bugWorld_def)
  have run': "exec rndBug [Tick] (bugWorld\<lparr>gameOfLife := UpdateBoard (gameOfLife bugWorld)\<rparr>) =
              Inr (tick (bugWorld\<lparr>gameOfLife := UpdateBoard (gameOfLife bugWorld)\<rparr>))"
    by simp
  from boundary_dead_after_first_step [OF run run'] show ?thesis .
qed

section \<open>The loop\<close>

text \<open>\<^verbatim>\<open>SimulationLoop\<close> is one of the step sequences of \<open>exec\<close>; its first pass commits
  a generation step, the start state not being paused.\<close>

lemma exec_append:
  "exec rnd (steps @ steps') w =
     (case exec rnd steps w of Inl h \<Rightarrow> Inl h | Inr w' \<Rightarrow> exec rnd steps' w')"
proof (induction steps arbitrary: w)
  case Nil
  show ?case by simp
next
  case (Cons s steps)
  then show ?case by (cases s) (simp_all split: sum.splits)
qed

lemma pollEvents_exec: "pollEvents rnd pending w = exec rnd (map Event pending) w"
  by (induction pending arbitrary: w) (simp_all split: sum.splits)

lemma loopBody_exec:
  "loopBody rnd pending w = Inr (ms, w') \<Longrightarrow> exec rnd (Tick # map Event pending) w = Inr w'"
  by (auto simp: loopBody_def pollEvents_exec split: sum.splits)

lemma SimulationLoop_exec:
  "SimulationLoop rnd input w = Inr (delays, w') \<Longrightarrow> exec rnd (stepsOf input) w = Inr w'"
proof (induction input arbitrary: w delays)
  case Nil
  then show ?case by (simp add: stepsOf_def)
next
  case (Cons pending rest)
  from Cons.prems obtain ms w1 ds where body: "loopBody rnd pending w = Inr (ms, w1)"
    and rest: "SimulationLoop rnd rest w1 = Inr (ds, w')"
    by (auto split: sum.splits prod.splits)
  from body have "exec rnd (Tick # map Event pending) w = Inr w1" by (rule loopBody_exec)
  moreover from rest have "exec rnd (stepsOf rest) w1 = Inr w'" by (rule Cons.IH)
  ultimately show ?case
    using exec_append [of rnd "Tick # map Event pending" "stepsOf rest" w]
    by (simp add: stepsOf_def)
qed

lemma main_boundary_dead:
  assumes "main graphicsOk rnd (pending # rest) = Inr (delays, w)"
  shows "boundaryDead (board (gameOfLife w))"
proof -
  let ?s = "startWorld rnd"
  from assms have "SimulationLoop rnd (pending # rest) ?s = Inr (delays, w)"
    by (simp add: main_def split: if_splits)
  then have "exec rnd (stepsOf (pending # rest)) ?s = Inr w" by (rule SimulationLoop_exec)
  then have "exec rnd (map Event pending @ stepsOf rest) (tick ?s) = Inr w"
    by (simp add: stepsOf_def)
  moreover have "tick ?s = ?s\<lparr>gameOfLife := UpdateBoard (gameOfLife ?s)\<rparr>"
    by (simp add: tick_def startWorld_paused)
  moreover have "exec rnd [] ?s = Inr ?s" by simp
  ultimately show ?thesis
    using shown_boundary_dead_from [of rnd "[]" ?s "map Event pending @ stepsOf rest" w]
    by simp
qed

section \<open>The frame delay\<close>

lemma tick_deltaTime [simp]: "deltaTime (gameOfLife (tick w)) = deltaTime (gameOfLife w)"
  by (simp add: tick_def)

lemma pollEvents_minus:
  "pollEvents rnd (replicate n (SDL_KEYDOWN SDLK_MINUS)) w =
     Inr (w\<lparr>gameOfLife := (gameOfLife w)\<lparr>deltaTime := deltaTime (gameOfLife w) - of_nat n\<rparr>\<rparr>)"
proof (induction n arbitrary: w)
  case 0
  show ?case by simp
next
  case (Suc n)
  show ?case by (simp add: Suc.IH diff_diff_eq)
qed

lemma loopBody_eq:
  "pollEvents rnd pending (tick w) = Inr w' \<Longrightarrow>
   loopBody rnd pending w =
     (if deltaTime (gameOfLife w') = 0 then Inl DivisionByZero
      else Inr (1000 div unat (deltaTime (gameOfLife w')), w'))"
  by (simp add: loopBody_def frameDelay_def)

lemma loopBody_minus_last:
  assumes "deltaTime (gameOfLife w) = 1"
  shows "loopBody rnd [SDL_KEYDOWN SDLK_MINUS] w = Inl DivisionByZero"
  using assms by (simp add: loopBody_def frameDelay_def)

lemma loopBody_minus_more:
  assumes "deltaTime (gameOfLife w) \<noteq> 1"
  shows "\<exists>ms w'. loopBody rnd [SDL_KEYDOWN SDLK_MINUS] w = Inr (ms, w') \<and>
                 deltaTime (gameOfLife w') = deltaTime (gameOfLife w) - 1"
  using assms by (simp add: loopBody_def frameDelay_def)

lemma SimulationLoop_minus:
  "unat (deltaTime (gameOfLife w)) = Suc n \<Longrightarrow>
   SimulationLoop rnd (replicate (Suc n) [SDL_KEYDOWN SDLK_MINUS]) w = Inl DivisionByZero"
proof (induction n arbitrary: w)
  case 0
  then have "deltaTime (gameOfLife w) = 1"
    by (metis One_nat_def unat_1 word_unat_eq_iff)
  then show ?case by (simp add: loopBody_minus_last)
next
  case (Suc n)
  let ?d = "deltaTime (gameOfLife w)"
  from Suc.prems have ne1: "?d \<noteq> 1" and ne0: "?d \<noteq> 0" by auto
  from loopBody_minus_more [OF ne1, of rnd] obtain ms w'
    where body: "loopBody rnd [SDL_KEYDOWN SDLK_MINUS] w = Inr (ms, w')"
      and d': "deltaTime (gameOfLife w') = ?d - 1"
    by blast
  from ne0 Suc.prems have "unat (deltaTime (gameOfLife w')) = Suc n"
    by (simp add: d' unat_minus_one)
  then have "SimulationLoop rnd (replicate (Suc n) [SDL_KEYDOWN SDLK_MINUS]) w' = Inl DivisionByZero"
    by (rule Suc.IH)
  with body show ?case by simp
qed

lemma unat_DEFAULT_DELTA_TIME: "unat DEFAULT_DELTA_TIME = 60"
  by (simp add: DEFAULT_DELTA_TIME_def)

text \<open>Claim C5. Every pass of the loop that reaches line 184 asks for a delay of
  \<open>1000 div deltaTime\<close> milliseconds and nothing guards the division. The rate starts at
  60; after 60 minus key events, whether they are pending in one pass or come one per pass,
  it is 0 and the division traps.\<close>

theorem frame_delay_unguarded:
  "(pollEvents rnd pending (tick w) = Inr w' \<longrightarrow>
      loopBody rnd pending w =
        (if deltaTime (gameOfLife w') = 0 then Inl DivisionByZero
         else Inr (1000 div unat (deltaTime (gameOfLife w')), w'))) \<and>
   deltaTime (gameOfLife (startWorld rnd)) = 60 \<and>
   (\<exists>w0. pollEvents rnd (replicate 60 (SDL_KEYDOWN SDLK_MINUS)) (tick (startWorld rnd)) = Inr w0 \<and>
         deltaTime (gameOfLife w0) = 0 \<and> frameDelay w0 = Inl DivisionByZero) \<and>
   main True rnd [replicate 60 (SDL_KEYDOWN SDLK_MINUS)] = Inl DivisionByZero \<and>
   main True rnd (replicate 60 [SDL_KEYDOWN SDLK_MINUS]) = Inl DivisionByZero"
proof -
  let ?s = "startWorld rnd"
  have d: "deltaTime (gameOfLife ?s) = 60"
    by (simp add: startWorld_deltaTime DEFAULT_DELTA_TIME_def)
  have zero: "deltaTime (gameOfLife (tick ?s)) - of_nat 60 = 0"
    by (simp add: d)
  have poll: "\<exists>w0. pollEvents rnd (replicate 60 (SDL_KEYDOWN SDLK_MINUS)) (tick ?s) = Inr w0 \<and>
                  deltaTime (gameOfLife w0) = 0 \<and> frameDelay w0 = Inl DivisionByZero"
    using zero by (simp add: pollEvents_minus frameDelay_def)
  then have one: "main True rnd [replicate 60 (SDL_KEYDOWN SDLK_MINUS)] = Inl DivisionByZero"
    by (auto simp: main_def loopBody_def)
  have "unat (deltaTime (gameOfLife ?s)) = Suc 59"
    by (simp add: d)
  then have "SimulationLoop rnd (replicate (Suc 59) [SDL_KEYDOWN SDLK_MINUS]) ?s = Inl DivisionByZero"
    by (rule SimulationLoop_minus)
  then have many: "main True rnd (replicate 60 [SDL_KEYDOWN SDLK_MINUS]) = Inl DivisionByZero"
    by (simp add: main_def)
  show ?thesis using d poll one many by (simp add: loopBody_eq)
qed

theorem frame_delay_unguarded_witness:
  "pollEvents rndDead [] (tick pausedWorld) = Inr pausedWorld \<and>
   loopBody rndDead [] pausedWorld = Inr (16, pausedWorld)"
proof -
  have p: "pollEvents rndDead [] (tick pausedWorld) = Inr pausedWorld"
    by (simp add: tick_def pausedWorld_def)
  have d: "deltaTime (gameOfLife pausedWorld) = 60"
    by (simp add: pausedWorld_def startWorld_deltaTime DEFAULT_DELTA_TIME_def)
  from frame_delay_unguarded [of rndDead "[]" pausedWorld pausedWorld] p d
  show ?thesis by simp
qed

end
